theory Spec2Isabelle
  imports Main "HOL-Library.Word"
begin

unbundle bit_operations_syntax

section \<open>The clockless LED controller over SPI\<close>

text \<open>
  A shallow embedding of \<^verbatim>\<open>ClocklessController\<close> of
  \<^verbatim>\<open>src/platforms/esp/32/clockless_esp32.h\<close>: its members, \<^verbatim>\<open>init\<close>,
  \<^verbatim>\<open>getMaxRefreshRate\<close> and \<^verbatim>\<open>showPixels\<close>. Undefined behaviour of the
  C++ (a store through a null or too short buffer, a call through a null bus pointer, signed
  overflow of the size computation) is a \<open>fault\<close> value of the model.
\<close>

type_synonym byte = "8 word"

subsection \<open>Template parameters and constants\<close>

text \<open>
  The template parameters of the class (line 103). The type of \<^verbatim>\<open>RGB_ORDER\<close>
  (\<^verbatim>\<open>EOrder\<close>) is declared outside this file, so it is a type parameter here.
\<close>

record 'order template_config =
  DATA_PIN :: int
  T1 :: int
  T2 :: int
  T3 :: int
  RGB_ORDER :: 'order
  XTRA0 :: int
  FLIP :: bool
  WAIT_TIME :: int

text \<open>Lines 108-111: the two symbol bytes.\<close>

definition mOne :: byte where
  "mOne = 0xf8"

definition mZero :: byte where
  "mZero = 0x80"

text \<open>Line 128.\<close>

definition RESET_LENGTH :: nat where
  "RESET_LENGTH = 10"

text \<open>The largest value of the C type \<^verbatim>\<open>int\<close> on the ESP32 (32 bits).\<close>

definition INT_MAX :: nat where
  "INT_MAX = 2 ^ 31 - 1"

subsection \<open>The bus peripheral\<close>

text \<open>
  Arduino's \<^verbatim>\<open>SPIClass\<close> and \<^verbatim>\<open>SPISettings\<close> are used by the controller
  but declared in \<^verbatim>\<open>SPI.h\<close>, outside this repository. The bus object is the log of
  the calls made on it, in order; \<^verbatim>\<open>writeBytes(data, size)\<close> is logged with the
  \<open>size\<close> bytes it reads from \<open>data\<close> and with \<open>size\<close> itself.
\<close>

datatype spi_bus = FSPI | HSPI | VSPI

datatype bit_order = LSBFIRST | MSBFIRST

datatype spi_mode = SPI_MODE0 | SPI_MODE1 | SPI_MODE2 | SPI_MODE3

record SPISettings =
  clock :: nat
  bitOrder :: bit_order
  dataMode :: spi_mode

datatype spi_call =
    Begin
  | BeginTransaction SPISettings
  | WriteBytes "byte list" nat
  | EndTransaction

record SPIClass =
  bus :: spi_bus
  calls :: "spi_call list"

definition new_SPIClass :: "spi_bus \<Rightarrow> SPIClass" where
  "new_SPIClass b = \<lparr>bus = b, calls = []\<rparr>"

definition begin_spi :: "SPIClass \<Rightarrow> SPIClass" where
  "begin_spi spi = spi\<lparr>calls := calls spi @ [Begin]\<rparr>"

definition beginTransaction :: "SPIClass \<Rightarrow> SPISettings \<Rightarrow> SPIClass" where
  "beginTransaction spi settings = spi\<lparr>calls := calls spi @ [BeginTransaction settings]\<rparr>"

definition writeBytes :: "SPIClass \<Rightarrow> byte list option \<Rightarrow> nat \<Rightarrow> SPIClass" where
  "writeBytes spi data n =
     spi\<lparr>calls := calls spi @ [WriteBytes (take n (case data of None \<Rightarrow> [] | Some buf \<Rightarrow> buf)) n]\<rparr>"

definition endTransaction :: "SPIClass \<Rightarrow> SPIClass" where
  "endTransaction spi = spi\<lparr>calls := calls spi @ [EndTransaction]\<rparr>"

subsection \<open>The allocator\<close>

text \<open>
  \<^verbatim>\<open>malloc\<close> and the type \<^verbatim>\<open>rmt_data_t\<close> come from the platform. The environment
  of a drive cycle gives the size of \<^verbatim>\<open>rmt_data_t\<close>, which requests the allocator
  grants, and the bytes found in fresh memory (malloc does not clear it). A failed
  \<^verbatim>\<open>malloc\<close> returns the null pointer, \<open>None\<close>.
\<close>

record env =
  sizeof_rmt_data_t :: nat
  can_allocate :: "nat \<Rightarrow> bool"
  garbage :: "nat \<Rightarrow> byte"

definition malloc :: "env \<Rightarrow> nat \<Rightarrow> byte list option" where
  "malloc e k = (if can_allocate e k then Some (map (garbage e) [0..<k]) else None)"

datatype heap_call = Free | Malloc nat

subsection \<open>The pixel source\<close>

text \<open>
  Modelled from the spec: \<^verbatim>\<open>PixelController\<close> is declared outside this file. The spec
  describes it as a stream yielding exactly 3 scaled bytes per pixel in the configured colour
  order, with \<^verbatim>\<open>size()\<close> the pixel count and \<^verbatim>\<open>has(n)\<close> telling whether n more
  pixels remain. A source is the list of the pixels that remain, each pixel the three bytes
  that \<^verbatim>\<open>loadAndScale0\<close>, \<^verbatim>\<open>loadAndScale1\<close> and \<^verbatim>\<open>loadAndScale2\<close> return
  for it; \<^verbatim>\<open>advanceData\<close> drops the head, and \<^verbatim>\<open>stepDithering\<close> only changes
  how later bytes were scaled, which the list already holds.
\<close>

type_synonym pixel = "byte \<times> byte \<times> byte"

type_synonym PixelController = "pixel list"

subsection \<open>The controller\<close>

text \<open>
  Lines 106-112: the members. \<open>heap_calls\<close> is not a member: it is the log of the calls
  this controller has made to \<^verbatim>\<open>free\<close> and \<^verbatim>\<open>malloc\<close>, in order. The buffer
  \<open>led_data\<close> is the whole allocation; \<open>None\<close> is the null pointer.
\<close>

record controller =
  hspi :: "SPIClass option"
  led_data :: "byte list option"
  mSize :: nat
  heap_calls :: "heap_call list"

definition initial :: controller where
  "initial = \<lparr>hspi = None, led_data = None, mSize = 0, heap_calls = []\<rparr>"

text \<open>Lines 116-119.\<close>

definition init :: "controller \<Rightarrow> controller" where
  "init s = s\<lparr>hspi := Some (begin_spi (new_SPIClass HSPI))\<rparr>"

text \<open>Lines 121-123.\<close>

definition getMaxRefreshRate :: "'order template_config \<Rightarrow> controller \<Rightarrow> 16 word" where
  "getMaxRefreshRate cfg s = 400"

datatype fault = SignedOverflow | NullStore | OutOfBounds | NullBus

text \<open>A store \<^verbatim>\<open>led_data[i] = v\<close>.\<close>

definition store :: "byte list option \<Rightarrow> nat \<Rightarrow> byte \<Rightarrow> fault + byte list option" where
  "store led i v =
     (case led of
        None \<Rightarrow> Inl NullStore
      | Some buf \<Rightarrow> if i < length buf then Inr (Some (buf[i := v])) else Inl OutOfBounds)"

text \<open>
  Lines 131-134: release the old buffer, record the new size, allocate. The request is
  computed in \<^verbatim>\<open>size_t\<close>, 32 bits wide on the ESP32, where multiplication wraps.
\<close>

definition resize :: "env \<Rightarrow> controller \<Rightarrow> nat \<Rightarrow> controller" where
  "resize e s size_needed =
     (let s = (if led_data s \<noteq> None then s\<lparr>heap_calls := heap_calls s @ [Free]\<rparr> else s);
          s = s\<lparr>mSize := size_needed\<rparr>;
          k = (mSize s * sizeof_rmt_data_t e) mod 2 ^ 32
      in s\<lparr>led_data := malloc e k, heap_calls := heap_calls s @ [Malloc k]\<rparr>)"

text \<open>Lines 135-137: the loop that clears the reset tail.\<close>

function zero_tail :: "byte list option \<Rightarrow> nat \<Rightarrow> nat \<Rightarrow> fault + byte list option" where
  "zero_tail led i size_needed =
     (if i < size_needed then
        (case store led i 0 of
           Inl f \<Rightarrow> Inl f
         | Inr led' \<Rightarrow> zero_tail led' (i + 1) size_needed)
      else Inr led)"
  by pat_completeness auto
termination
  by (relation "measure (\<lambda>(led, i, size_needed). size_needed - i)") auto

declare zero_tail.simps [simp del]

text \<open>
  Lines 130-138. A fault is returned with the members as they stand when it happens.
\<close>

definition ensure :: "env \<Rightarrow> controller \<Rightarrow> nat \<Rightarrow> fault \<times> controller + controller" where
  "ensure e s size_needed =
     (if size_needed \<noteq> mSize s then
        (let s = resize e s size_needed in
         case zero_tail (led_data s) (size_needed - RESET_LENGTH) size_needed of
           Inl f \<Rightarrow> Inl (f, s)
         | Inr led \<Rightarrow> Inr (s\<lparr>led_data := led\<rparr>))
      else Inr s)"

text \<open>The expression \<^verbatim>\<open>byte & m ? mOne : mZero\<close> for a bit mask m.\<close>

definition symbol :: "byte \<Rightarrow> byte \<Rightarrow> byte" where
  "symbol b m = (if b AND m \<noteq> 0 then mOne else mZero)"

text \<open>
  The statement \<^verbatim>\<open>led_data[cur++] = v\<close>, on the buffer and the cursor; once a store
  has faulted nothing more is written.
\<close>

fun emit :: "fault + byte list option \<times> nat \<Rightarrow> byte \<Rightarrow> fault + byte list option \<times> nat" where
  "emit (Inl f) v = Inl f"
| "emit (Inr (led, cur)) v =
     (case store led cur v of
        Inl f \<Rightarrow> Inl f
      | Inr led' \<Rightarrow> Inr (led', cur + 1))"

text \<open>
  Lines 143-150, repeated at 152-159 and 161-168: the eight stores for one scaled byte.
\<close>

definition encode_byte ::
  "fault + byte list option \<times> nat \<Rightarrow> byte \<Rightarrow> fault + byte list option \<times> nat" where
  "encode_byte r b =
     (let r = emit r (symbol b 0x80);
          r = emit r (symbol b 0x40);
          r = emit r (symbol b 0x20);
          r = emit r (symbol b 0x10);
          r = emit r (symbol b 0x08);
          r = emit r (symbol b 0x04);
          r = emit r (symbol b 0x02);
          r = emit r (symbol b 0x01)
      in r)"

text \<open>Lines 141-171: the loop over the pixels that remain.\<close>

fun encode_loop ::
  "fault + byte list option \<times> nat \<Rightarrow> PixelController \<Rightarrow> fault + byte list option \<times> nat" where
  "encode_loop r [] = r"
| "encode_loop r ((b0, b1, b2) # pixels) =
     (let r = encode_byte r b0;
          r = encode_byte r b1;
          r = encode_byte r b2
      in encode_loop r pixels)"

text \<open>Lines 172-175.\<close>

definition transmit :: "controller \<Rightarrow> nat \<Rightarrow> fault \<times> controller + controller" where
  "transmit s cur =
     (case hspi s of
        None \<Rightarrow> Inl (NullBus, s)
      | Some spi \<Rightarrow>
          (let settings = \<lparr>clock = 6400000, bitOrder = MSBFIRST, dataMode = SPI_MODE0\<rparr>;
               spi = beginTransaction spi settings;
               spi = writeBytes spi (led_data s) cur;
               spi = endTransaction spi
           in Inr (s\<lparr>hspi := Some spi\<rparr>)))"

text \<open>
  Lines 127-176. \<^verbatim>\<open>size_needed\<close> is a C \<^verbatim>\<open>int\<close>; a value beyond \<open>INT_MAX\<close>
  is signed overflow.
\<close>

definition showPixels :: "env \<Rightarrow> controller \<Rightarrow> PixelController \<Rightarrow> fault \<times> controller + controller" where
  "showPixels e s pixels =
     (let size_needed = length pixels * 3 * 8 + RESET_LENGTH in
      if INT_MAX < size_needed then Inl (SignedOverflow, s)
      else
        (case ensure e s size_needed of
           Inl f \<Rightarrow> Inl f
         | Inr s \<Rightarrow>
             (case encode_loop (Inr (led_data s, 0)) pixels of
                Inl f \<Rightarrow> Inl (f, s)
              | Inr (led, cur) \<Rightarrow> transmit (s\<lparr>led_data := led\<rparr>) cur)))"

section \<open>Observations on the model\<close>

text \<open>
  The definitions of this section are not part of the source: they name what the
  properties below speak about.
\<close>

subsection \<open>Buffers, requests and bus traffic\<close>

text \<open>
  \<open>request\<close> is the argument of \<^verbatim>\<open>malloc\<close> in line 134, \<open>released\<close> the call of
  lines 131-132. \<open>buffer\<close> is the allocation behind \<open>led_data\<close> (empty for the null
  pointer) and \<open>frame_buffer\<close> its first \<open>mSize\<close> bytes, the frame the controller
  accounts for. \<open>sent\<close> appends the three calls of lines 173-175 to a bus log, and
  \<open>transmitted_lengths\<close> lists the size arguments of all \<^verbatim>\<open>writeBytes\<close> calls made
  so far.
\<close>

definition request :: "env \<Rightarrow> nat \<Rightarrow> nat" where
  "request e size_needed = (size_needed * sizeof_rmt_data_t e) mod 2 ^ 32"

definition released :: "controller \<Rightarrow> heap_call list" where
  "released s = (if led_data s \<noteq> None then [Free] else [])"

definition buffer :: "controller \<Rightarrow> byte list" where
  "buffer s = (case led_data s of None \<Rightarrow> [] | Some buf \<Rightarrow> buf)"

definition frame_buffer :: "controller \<Rightarrow> byte list" where
  "frame_buffer s = take (mSize s) (buffer s)"

definition sent :: "SPIClass \<Rightarrow> byte list \<Rightarrow> nat \<Rightarrow> SPIClass" where
  "sent spi bytes n =
     spi\<lparr>calls := calls spi @
       [BeginTransaction \<lparr>clock = 6400000, bitOrder = MSBFIRST, dataMode = SPI_MODE0\<rparr>,
        WriteBytes bytes n, EndTransaction]\<rparr>"

fun write_sizes :: "spi_call list \<Rightarrow> nat list" where
  "write_sizes [] = []"
| "write_sizes (WriteBytes bytes n # cs) = n # write_sizes cs"
| "write_sizes (c # cs) = write_sizes cs"

definition transmitted_lengths :: "controller \<Rightarrow> nat list" where
  "transmitted_lengths s = (case hspi s of None \<Rightarrow> [] | Some spi \<Rightarrow> write_sizes (calls spi))"

subsection \<open>What the encoding loop writes\<close>

text \<open>
  \<open>symbols b\<close> are the eight values stored for one scaled byte, in the order of the
  stores; \<open>encoded pixels\<close> are the values stored for all pixels, and \<open>scaled_bytes\<close>
  the bytes the pixel source hands out, channel 0, 1, 2 of each pixel in turn.
\<close>

definition symbols :: "byte \<Rightarrow> byte list" where
  "symbols b = map (symbol b) [0x80, 0x40, 0x20, 0x10, 0x08, 0x04, 0x02, 0x01]"

fun encoded :: "PixelController \<Rightarrow> byte list" where
  "encoded [] = []"
| "encoded ((b0, b1, b2) # pixels) = symbols b0 @ symbols b1 @ symbols b2 @ encoded pixels"

fun scaled_bytes :: "PixelController \<Rightarrow> byte list" where
  "scaled_bytes [] = []"
| "scaled_bytes ((b0, b1, b2) # pixels) = b0 # b1 # b2 # scaled_bytes pixels"

subsection \<open>Reachable controller states\<close>

text \<open>
  A controller starts with the member initialisers of lines 106-112; \<^verbatim>\<open>init\<close> and
  completed drive cycles lead from one state to the next. \<open>tail_zeroed\<close> is the invariant
  of these states: with no buffer the recorded size is 0, otherwise the allocation covers the
  recorded size and the last \<open>RESET_LENGTH\<close> bytes of the frame are zero.
\<close>

inductive reachable :: "controller \<Rightarrow> bool" where
  start: "reachable initial"
| initialised: "reachable s \<Longrightarrow> reachable (init s)"
| cycle: "reachable s \<Longrightarrow> showPixels e s px = Inr s' \<Longrightarrow> reachable s'"

definition tail_zeroed :: "controller \<Rightarrow> bool" where
  "tail_zeroed s =
     (case led_data s of
        None \<Rightarrow> mSize s = 0
      | Some buf \<Rightarrow>
          RESET_LENGTH \<le> mSize s \<and> mSize s \<le> length buf \<and>
          take RESET_LENGTH (drop (mSize s - RESET_LENGTH) buf) = replicate RESET_LENGTH 0)"

subsection \<open>Sequences of drive cycles and their reallocations\<close>

text \<open>
  \<open>cycles\<close> runs drive cycles one after the other, each with its own environment and
  pixel source, and stops at the first fault. \<open>reallocations\<close> counts the \<^verbatim>\<open>malloc\<close>
  calls made so far, \<open>required\<close> is the size a cycle needs (line 129), and
  \<open>size_changes cur ns\<close> counts the positions at which a list of sizes differs from the
  size before it, starting from \<open>cur\<close>.
\<close>

fun is_malloc :: "heap_call \<Rightarrow> bool" where
  "is_malloc (Malloc k) = True"
| "is_malloc Free = False"

definition reallocations :: "controller \<Rightarrow> nat" where
  "reallocations s = length (filter is_malloc (heap_calls s))"

fun cycles :: "controller \<Rightarrow> (env \<times> PixelController) list \<Rightarrow> fault \<times> controller + controller" where
  "cycles s [] = Inr s"
| "cycles s ((e, px) # rest) =
     (case showPixels e s px of
        Inl f \<Rightarrow> Inl f
      | Inr s' \<Rightarrow> cycles s' rest)"

definition required :: "env \<times> PixelController \<Rightarrow> nat" where
  "required c = length (snd c) * 3 * 8 + RESET_LENGTH"

fun size_changes :: "nat \<Rightarrow> nat list \<Rightarrow> nat" where
  "size_changes cur [] = 0"
| "size_changes cur (n # ns) = (if n \<noteq> cur then 1 else 0) + size_changes n ns"

subsection \<open>A decoder for the symbol stream\<close>

text \<open>
  The decoder follows the specification's description of the round trip, not the source:
  a symbol byte \<open>0xf8\<close> is the bit 1, \<open>0x80\<close> the bit 0, any other byte is no symbol;
  eight bits make a byte, most significant bit first; a stream whose length is not a multiple
  of eight does not decode.
\<close>

definition decode_symbol :: "byte \<Rightarrow> bool option" where
  "decode_symbol v = (if v = 0xf8 then Some True else if v = 0x80 then Some False else None)"

definition bits_to_byte :: "bool list \<Rightarrow> byte" where
  "bits_to_byte bits = foldl (\<lambda>acc x. 2 * acc + (if x then 1 else 0)) 0 bits"

fun decode :: "byte list \<Rightarrow> byte list option" where
  "decode [] = Some []"
| "decode (v0 # v1 # v2 # v3 # v4 # v5 # v6 # v7 # rest) =
     (case those (map decode_symbol [v0, v1, v2, v3, v4, v5, v6, v7]) of
        None \<Rightarrow> None
      | Some bits \<Rightarrow>
          (case decode rest of
             None \<Rightarrow> None
           | Some bytes \<Rightarrow> Some (bits_to_byte bits # bytes)))"
| "decode vs = None"

subsection \<open>A worked example\<close>

text \<open>
  The scenario of the specification: a fresh controller after \<^verbatim>\<open>init\<close>, one pixel with
  the scaled bytes \<open>0xFF\<close>, \<open>0x00\<close>, \<open>0x81\<close>, on a platform where
  \<^verbatim>\<open>rmt_data_t\<close> takes 4 bytes, every allocation is granted and fresh memory holds
  \<open>0xAA\<close>. \<open>after_one_pixel\<close> is the controller after the first drive cycle,
  \<open>after_two_cycles\<close> after a second cycle with the same pixel. \<open>no_memory\<close> is a
  platform whose allocator grants nothing.
\<close>

definition env4 :: env where
  "env4 = \<lparr>sizeof_rmt_data_t = 4, can_allocate = (\<lambda>k. True), garbage = (\<lambda>i. 0xAA)\<rparr>"

definition no_memory :: env where
  "no_memory = \<lparr>sizeof_rmt_data_t = 4, can_allocate = (\<lambda>k. False), garbage = (\<lambda>i. 0xAA)\<rparr>"

definition one_pixel :: PixelController where
  "one_pixel = [(0xFF, 0x00, 0x81)]"

definition one_pixel_symbols :: "byte list" where
  "one_pixel_symbols =
     [0xf8, 0xf8, 0xf8, 0xf8, 0xf8, 0xf8, 0xf8, 0xf8,
      0x80, 0x80, 0x80, 0x80, 0x80, 0x80, 0x80, 0x80,
      0xf8, 0x80, 0x80, 0x80, 0x80, 0x80, 0x80, 0xf8]"

definition after_one_pixel :: controller where
  "after_one_pixel =
     \<lparr>hspi = Some \<lparr>bus = HSPI, calls =
         [Begin,
          BeginTransaction \<lparr>clock = 6400000, bitOrder = MSBFIRST, dataMode = SPI_MODE0\<rparr>,
          WriteBytes one_pixel_symbols 24,
          EndTransaction]\<rparr>,
      led_data = Some (one_pixel_symbols @ replicate 10 0 @ replicate 102 0xAA),
      mSize = 34,
      heap_calls = [Malloc 136]\<rparr>"

definition after_two_cycles :: controller where
  "after_two_cycles =
     after_one_pixel\<lparr>hspi := Some \<lparr>bus = HSPI, calls =
         [Begin,
          BeginTransaction \<lparr>clock = 6400000, bitOrder = MSBFIRST, dataMode = SPI_MODE0\<rparr>,
          WriteBytes one_pixel_symbols 24,
          EndTransaction,
          BeginTransaction \<lparr>clock = 6400000, bitOrder = MSBFIRST, dataMode = SPI_MODE0\<rparr>,
          WriteBytes one_pixel_symbols 24,
          EndTransaction]\<rparr>\<rparr>"

section \<open>Auxiliary lemmas\<close>

lemma foldl_emit_Inl: "foldl emit (Inl f) vs = Inl f"
  by (induction vs) simp_all

lemma foldl_emit_None:
  "foldl emit (Inr (None, cur)) vs = (if vs = [] then Inr (None, cur) else Inl NullStore)"
  by (cases vs) (simp_all add: store_def foldl_emit_Inl)

lemma foldl_emit_Some:
  "foldl emit (Inr (Some buf, cur)) vs =
     (if vs = [] then Inr (Some buf, cur)
      else if cur + length vs \<le> length buf
      then Inr (Some (take cur buf @ vs @ drop (cur + length vs) buf), cur + length vs)
      else Inl OutOfBounds)"
proof (induction vs arbitrary: buf cur)
  case Nil
  then show ?case by simp
next
  case (Cons v vs)
  show ?case
  proof (cases "cur < length buf")
    case True
    then show ?thesis
      by (auto simp: store_def Cons.IH take_Suc_conv_app_nth upd_conv_take_nth_drop add.commute)
  next
    case False
    then show ?thesis by (simp add: store_def foldl_emit_Inl)
  qed
qed

lemma encode_byte_foldl: "encode_byte r b = foldl emit r (symbols b)"
  by (simp add: encode_byte_def symbols_def Let_def)

lemma encode_loop_foldl: "encode_loop r pixels = foldl emit r (encoded pixels)"
  by (induction r pixels rule: encode_loop.induct) (simp_all add: encode_byte_foldl Let_def)

lemma length_symbols: "length (symbols b) = 8"
  by (simp add: symbols_def)

lemma length_encoded: "length (encoded pixels) = 24 * length pixels"
  by (induction pixels rule: encoded.induct) (simp_all add: length_symbols)

lemma zero_tail_None:
  "zero_tail None i n = (if i < n then Inl NullStore else Inr None)"
  by (subst zero_tail.simps) (simp add: store_def)

lemma zero_tail_foldl:
  "zero_tail led i n =
     (case foldl emit (Inr (led, i)) (replicate (n - i) 0) of
        Inl f \<Rightarrow> Inl f
      | Inr (led', cur) \<Rightarrow> Inr led')"
proof (induction led i n rule: zero_tail.induct)
  case (1 led i n)
  show ?case
  proof (cases "i < n")
    case True
    then have "n - i = Suc (n - (i + 1))" by simp
    then have r: "replicate (n - i) (0::byte) = 0 # replicate (n - (i + 1)) 0"
      by (simp only: replicate_Suc)
    show ?thesis
    proof (cases "store led i 0")
      case (Inl f)
      with True show ?thesis
        by (subst zero_tail.simps) (simp add: r foldl_emit_Inl)
    next
      case (Inr led')
      with True "1.IH" [OF True Inr] show ?thesis
        by (subst zero_tail.simps) (simp add: r)
    qed
  next
    case False
    then show ?thesis by (subst zero_tail.simps) simp
  qed
qed

lemma zero_tail_Some:
  "zero_tail (Some buf) i n =
     (if i < n then
        (if n \<le> length buf
         then Inr (Some (take i buf @ replicate (n - i) 0 @ drop n buf))
         else Inl OutOfBounds)
      else Inr (Some buf))"
  by (simp add: zero_tail_foldl foldl_emit_Some)

lemma resize_eq:
  "resize e s n =
     s\<lparr>led_data := malloc e (request e n), mSize := n,
       heap_calls := heap_calls s @ released s @ [Malloc (request e n)]\<rparr>"
  by (simp add: resize_def request_def released_def Let_def)

lemma ensure_same: "ensure e s (mSize s) = Inr s"
  by (simp add: ensure_def)

lemma ensure_fail:
  assumes "n \<noteq> mSize s" "RESET_LENGTH \<le> n" "\<not> can_allocate e (request e n)"
  shows "ensure e s n =
     Inl (NullStore, s\<lparr>led_data := None, mSize := n,
       heap_calls := heap_calls s @ released s @ [Malloc (request e n)]\<rparr>)"
  using assms
  by (simp add: ensure_def resize_eq malloc_def zero_tail_None RESET_LENGTH_def)

lemma ensure_grant:
  assumes "n \<noteq> mSize s" "RESET_LENGTH \<le> n" "can_allocate e (request e n)" "n \<le> request e n"
  shows "ensure e s n =
     Inr (s\<lparr>led_data := Some (take (n - RESET_LENGTH) (map (garbage e) [0..<request e n])
                @ replicate RESET_LENGTH 0 @ drop n (map (garbage e) [0..<request e n])),
       mSize := n,
       heap_calls := heap_calls s @ released s @ [Malloc (request e n)]\<rparr>)"
  using assms
  by (simp add: ensure_def resize_eq malloc_def zero_tail_Some RESET_LENGTH_def)

lemma ensure_short:
  assumes "n \<noteq> mSize s" "RESET_LENGTH \<le> n" "can_allocate e (request e n)" "\<not> n \<le> request e n"
  shows "ensure e s n =
     Inl (OutOfBounds, s\<lparr>led_data := Some (map (garbage e) [0..<request e n]),
       mSize := n,
       heap_calls := heap_calls s @ released s @ [Malloc (request e n)]\<rparr>)"
  using assms
  by (simp add: ensure_def resize_eq malloc_def zero_tail_Some RESET_LENGTH_def)

lemma ensure_Inr:
  assumes "ensure e s n = Inr s1" "RESET_LENGTH \<le> n"
  shows "mSize s1 = n \<and> hspi s1 = hspi s \<and>
     (if n \<noteq> mSize s
      then can_allocate e (request e n) \<and> n \<le> request e n \<and>
           led_data s1 = Some (take (n - RESET_LENGTH) (map (garbage e) [0..<request e n])
                @ replicate RESET_LENGTH 0 @ drop n (map (garbage e) [0..<request e n])) \<and>
           heap_calls s1 = heap_calls s @ released s @ [Malloc (request e n)]
      else s1 = s)"
proof (cases "n = mSize s")
  case True
  with assms show ?thesis by (simp add: ensure_def)
next
  case False
  show ?thesis
  proof (cases "can_allocate e (request e n)")
    case a: True
    show ?thesis
    proof (cases "n \<le> request e n")
      case True
      with assms False a show ?thesis by (auto simp: ensure_grant)
    next
      case b: False
      with assms False a show ?thesis by (simp add: ensure_short)
    qed
  next
    case b: False
    with assms False show ?thesis by (simp add: ensure_fail)
  qed
qed

lemma transmit_eq:
  "transmit s cur =
     (case hspi s of
        None \<Rightarrow> Inl (NullBus, s)
      | Some spi \<Rightarrow>
          Inr (s\<lparr>hspi := Some (spi\<lparr>calls := calls spi @
            [BeginTransaction \<lparr>clock = 6400000, bitOrder = MSBFIRST, dataMode = SPI_MODE0\<rparr>,
             WriteBytes (take cur (buffer s)) cur, EndTransaction]\<rparr>)\<rparr>))"
  by (simp add: transmit_def beginTransaction_def writeBytes_def endTransaction_def
      buffer_def Let_def split: option.split)

lemma encoded_Nil_iff: "encoded pixels = [] \<longleftrightarrow> pixels = []"
  using length_encoded [of pixels] by (cases pixels) auto

lemma encode_loop_None:
  "encode_loop (Inr (None, cur)) pixels =
     (if pixels = [] then Inr (None, cur) else Inl NullStore)"
  by (simp add: encode_loop_foldl foldl_emit_None encoded_Nil_iff)

lemma encode_loop_Some:
  "encode_loop (Inr (Some buf, 0)) pixels =
     (if 24 * length pixels \<le> length buf
      then Inr (Some (encoded pixels @ drop (24 * length pixels) buf), 24 * length pixels)
      else Inl OutOfBounds)"
  by (simp add: encode_loop_foldl foldl_emit_Some length_encoded encoded_Nil_iff)

lemma showPixels_Inr:
  assumes "showPixels e s px = Inr s'"
  shows "\<exists>s1 spi.
     length px * 3 * 8 + RESET_LENGTH \<le> INT_MAX \<and>
     ensure e s (length px * 3 * 8 + RESET_LENGTH) = Inr s1 \<and>
     hspi s = Some spi \<and>
     (led_data s1 = None \<longrightarrow> px = []) \<and>
     24 * length px \<le> length (buffer s1) \<and>
     s' = s1\<lparr>hspi := Some (sent spi (encoded px) (24 * length px)),
             led_data := map_option (\<lambda>buf. encoded px @ drop (24 * length px) buf) (led_data s1)\<rparr>"
proof -
  let ?n = "length px * 3 * 8 + RESET_LENGTH"
  from assms have le: "?n \<le> INT_MAX"
    by (simp add: showPixels_def Let_def split: if_splits)
  from assms le obtain s1 where s1: "ensure e s ?n = Inr s1"
    by (cases "ensure e s ?n") (simp_all add: showPixels_def Let_def)
  have h: "hspi s1 = hspi s"
    using ensure_Inr [OF s1] by (simp add: RESET_LENGTH_def)
  show ?thesis
  proof (cases "led_data s1")
    case None
    with assms le s1 h show ?thesis
      by (auto simp: showPixels_def Let_def encode_loop_None transmit_eq buffer_def sent_def
          split: if_splits option.splits)
  next
    case (Some buf)
    with assms le s1 h show ?thesis
      by (auto simp: showPixels_def Let_def encode_loop_Some transmit_eq buffer_def sent_def
          length_encoded split: if_splits option.splits)
  qed
qed

lemma showPixels_InrE:
  assumes "showPixels e s px = Inr s'"
  obtains s1 spi where
    "length px * 3 * 8 + RESET_LENGTH \<le> INT_MAX"
    and "ensure e s (length px * 3 * 8 + RESET_LENGTH) = Inr s1"
    and "hspi s = Some spi"
    and "led_data s1 \<noteq> None \<or> px = []"
    and "24 * length px \<le> length (buffer s1)"
    and "s' = s1\<lparr>hspi := Some (sent spi (encoded px) (24 * length px)),
             led_data := map_option (\<lambda>buf. encoded px @ drop (24 * length px) buf) (led_data s1)\<rparr>"
proof -
  from showPixels_Inr [OF assms] obtain s1 spi where
    *: "length px * 3 * 8 + RESET_LENGTH \<le> INT_MAX \<and>
     ensure e s (length px * 3 * 8 + RESET_LENGTH) = Inr s1 \<and>
     hspi s = Some spi \<and>
     (led_data s1 = None \<longrightarrow> px = []) \<and>
     24 * length px \<le> length (buffer s1) \<and>
     s' = s1\<lparr>hspi := Some (sent spi (encoded px) (24 * length px)),
             led_data := map_option (\<lambda>buf. encoded px @ drop (24 * length px) buf) (led_data s1)\<rparr>"
    by (elim exE)
  show thesis
    by (rule that [of s1 spi]) (use * in auto)
qed

lemma showPixels_run:
  assumes "length px * 3 * 8 + RESET_LENGTH \<le> INT_MAX"
    and "ensure e s (length px * 3 * 8 + RESET_LENGTH) = Inr s1"
    and "hspi s = Some spi"
    and "led_data s1 = Some buf"
    and "24 * length px \<le> length buf"
  shows "showPixels e s px =
     Inr (s1\<lparr>hspi := Some (sent spi (encoded px) (24 * length px)),
             led_data := Some (encoded px @ drop (24 * length px) buf)\<rparr>)"
proof -
  have h: "hspi s1 = hspi s"
    using ensure_Inr [OF assms(2)] by (simp add: RESET_LENGTH_def)
  with assms show ?thesis
    by (simp add: showPixels_def Let_def encode_loop_Some transmit_eq buffer_def sent_def
        length_encoded)
qed

lemma ensure_tail_zeroed:
  assumes "tail_zeroed s" "ensure e s n = Inr s1" "RESET_LENGTH \<le> n"
  shows "tail_zeroed s1"
proof (cases "n = mSize s")
  case True
  with assms show ?thesis by (simp add: ensure_def)
next
  case False
  with ensure_Inr [OF assms(2,3)] assms(3) show ?thesis
    by (auto simp: tail_zeroed_def RESET_LENGTH_def min_def)
qed

lemma showPixels_tail_zeroed:
  assumes "tail_zeroed s" "showPixels e s px = Inr s'"
  shows "tail_zeroed s'"
proof -
  let ?n = "length px * 3 * 8 + RESET_LENGTH"
  from assms(2) obtain s1 spi where
    s1: "ensure e s ?n = Inr s1"
    and len: "24 * length px \<le> length (buffer s1)"
    and s': "s' = s1\<lparr>hspi := Some (sent spi (encoded px) (24 * length px)),
             led_data := map_option (\<lambda>buf. encoded px @ drop (24 * length px) buf) (led_data s1)\<rparr>"
    by (rule showPixels_InrE)
  have z: "tail_zeroed s1" and m: "mSize s1 = ?n"
    using ensure_tail_zeroed [OF assms(1) s1] ensure_Inr [OF s1]
    by (simp_all add: RESET_LENGTH_def)
  show ?thesis
    using z m len
    by (auto simp: s' tail_zeroed_def RESET_LENGTH_def buffer_def length_encoded
        split: option.splits)
qed

lemma reachable_tail_zeroed: "reachable s \<Longrightarrow> tail_zeroed s"
proof (induction rule: reachable.induct)
  case start
  show ?case by (simp add: tail_zeroed_def initial_def)
next
  case (initialised s)
  then show ?case by (simp add: tail_zeroed_def init_def split: option.splits)
next
  case (cycle s e px s')
  then show ?case by (blast intro: showPixels_tail_zeroed)
qed

lemma symbol_bit: "symbol b (2 ^ k) = (if bit b k then mOne else mZero)"
  by (simp add: symbol_def and_exp_eq_0_iff_not_bit)

lemma symbols_bits:
  "symbols b = map (\<lambda>k. if bit b k then mOne else mZero) [7, 6, 5, 4, 3, 2, 1, 0]"
  using symbol_bit [of b 7] symbol_bit [of b 6] symbol_bit [of b 5] symbol_bit [of b 4]
    symbol_bit [of b 3] symbol_bit [of b 2] symbol_bit [of b 1] symbol_bit [of b 0]
  by (simp add: symbols_def)

lemma symbols_nth:
  assumes "i < 8"
  shows "symbols b ! i = (if bit b (7 - i) then mOne else mZero)"
proof -
  from assms have "i = 0 \<or> i = 1 \<or> i = 2 \<or> i = 3 \<or> i = 4 \<or> i = 5 \<or> i = 6 \<or> i = 7" by arith
  then show ?thesis by (elim disjE) (simp_all add: symbols_bits)
qed

lemma symbols_not_Nil: "symbols b \<noteq> []"
  using length_symbols [of b] by auto

lemma encoded_one_pixel: "encoded one_pixel = one_pixel_symbols"
  by (simp add: one_pixel_def one_pixel_symbols_def symbols_def symbol_def mOne_def mZero_def)

lemma map_const_upt: "map (\<lambda>i. c) [a..<b] = replicate (b - a) c"
  by (simp add: map_replicate_const)

lemma showPixels_one_pixel: "showPixels env4 (init initial) one_pixel = Inr after_one_pixel"
proof -
  let ?spi = "\<lparr>bus = HSPI, calls = [Begin]\<rparr>"
  let ?buf = "replicate 24 0xAA @ replicate 10 0 @ replicate 102 (0xAA::byte)"
  let ?s1 = "(init initial)\<lparr>led_data := Some ?buf, mSize := 34, heap_calls := [Malloc 136]\<rparr>"
  have l: "length one_pixel = 1"
    by (simp add: one_pixel_def)
  have n: "length one_pixel * 3 * 8 + RESET_LENGTH = 34"
    by (simp add: l RESET_LENGTH_def)
  have r: "request env4 34 = 136"
    by (simp add: request_def env4_def)
  have g: "map (garbage env4) [0..<136] = replicate 136 0xAA"
    by (simp add: env4_def map_const_upt)
  have e: "ensure env4 (init initial) (length one_pixel * 3 * 8 + RESET_LENGTH) = Inr ?s1"
    unfolding n
    by (subst ensure_grant)
      (simp_all add: r g init_def initial_def RESET_LENGTH_def released_def, simp add: env4_def)
  have "showPixels env4 (init initial) one_pixel =
      Inr (?s1\<lparr>hspi := Some (sent ?spi (encoded one_pixel) (24 * length one_pixel)),
             led_data := Some (encoded one_pixel @ drop (24 * length one_pixel) ?buf)\<rparr>)"
    by (rule showPixels_run [OF _ e])
      (simp_all add: l RESET_LENGTH_def INT_MAX_def init_def initial_def begin_spi_def
        new_SPIClass_def)
  also have "\<dots> = Inr after_one_pixel"
    by (simp add: l encoded_one_pixel after_one_pixel_def sent_def init_def initial_def)
  finally show ?thesis .
qed

lemma reachable_init_initial: "reachable (init initial)"
  by (intro reachable.initialised reachable.start)

lemma showPixels_mSize:
  assumes "showPixels e s px = Inr s'"
  shows "mSize s' = length px * 24 + RESET_LENGTH"
proof -
  from assms obtain s1 spi where
    s1: "ensure e s (length px * 3 * 8 + RESET_LENGTH) = Inr s1"
    and s': "s' = s1\<lparr>hspi := Some (sent spi (encoded px) (24 * length px)),
             led_data := map_option (\<lambda>buf. encoded px @ drop (24 * length px) buf) (led_data s1)\<rparr>"
    by (rule showPixels_InrE)
  from ensure_Inr [OF s1] show ?thesis by (simp add: s')
qed

lemma showPixels_buffer:
  assumes "showPixels e s px = Inr s'"
  shows "24 * length px \<le> length (buffer s') \<and> take (24 * length px) (buffer s') = encoded px"
proof -
  from assms obtain s1 spi where
    nn: "led_data s1 \<noteq> None \<or> px = []"
    and len: "24 * length px \<le> length (buffer s1)"
    and s': "s' = s1\<lparr>hspi := Some (sent spi (encoded px) (24 * length px)),
             led_data := map_option (\<lambda>buf. encoded px @ drop (24 * length px) buf) (led_data s1)\<rparr>"
    by (rule showPixels_InrE)
  show ?thesis
    using nn len by (cases "led_data s1") (auto simp: s' buffer_def length_encoded)
qed

lemma showPixels_bus:
  assumes "showPixels e s px = Inr s'"
  shows "\<exists>spi. hspi s = Some spi \<and>
     hspi s' = Some (sent spi (take (24 * length px) (buffer s')) (24 * length px))"
proof -
  from assms obtain s1 spi where
    h: "hspi s = Some spi"
    and s': "s' = s1\<lparr>hspi := Some (sent spi (encoded px) (24 * length px)),
             led_data := map_option (\<lambda>buf. encoded px @ drop (24 * length px) buf) (led_data s1)\<rparr>"
    by (rule showPixels_InrE)
  from showPixels_buffer [OF assms] h show ?thesis
    by (simp add: s')
qed

lemma hspi_init_initial: "hspi (init initial) = Some \<lparr>bus = HSPI, calls = [Begin]\<rparr>"
  by (simp add: init_def initial_def begin_spi_def new_SPIClass_def)

lemma symbol_cases: "symbol b m = mOne \<or> symbol b m = mZero"
  by (simp add: symbol_def)

lemma set_symbols: "set (symbols b) \<subseteq> {mOne, mZero}"
  using symbol_cases by (auto simp: symbols_def)

lemma set_encoded: "set (encoded px) \<subseteq> {mOne, mZero}"
  using set_symbols by (induction px rule: encoded.induct) auto

lemma decode_symbol_bit: "decode_symbol (if x then mOne else mZero) = Some x"
  by (simp add: decode_symbol_def mOne_def mZero_def)

lemma bits_to_byte_horner:
  "bits_to_byte [x7, x6, x5, x4, x3, x2, x1, x0] =
     horner_sum of_bool 2 [x0, x1, x2, x3, x4, x5, x6, x7]"
  by (simp add: bits_to_byte_def)

lemma upt_8: "[0..<8] = [0, 1, 2, 3, 4, 5, 6, 7::nat]"
  by (simp add: upt_rec)

lemma bits_of_byte:
  "bits_to_byte [bit b 7, bit b 6, bit b 5, bit b 4, bit b 3, bit b 2, bit b 1, bit b 0] = (b::byte)"
proof -
  have "horner_sum of_bool 2 (map (bit b) [0..<8]) = take_bit 8 b"
    by (rule horner_sum_bit_eq_take_bit)
  also have "take_bit 8 b = b"
    by (simp add: take_bit_word_eq_self)
  finally show ?thesis
    by (simp only: bits_to_byte_horner upt_8 list.map)
qed

lemma decode_symbols:
  "decode (symbols b @ rest) =
     (case decode rest of None \<Rightarrow> None | Some bytes \<Rightarrow> Some (b # bytes))"
  by (simp add: symbols_bits decode_symbol_bit bits_of_byte del: One_nat_def split: option.split)

lemma decode_encoded: "decode (encoded px) = Some (scaled_bytes px)"
proof (induction px rule: encoded.induct)
  case 1
  show ?case by simp
next
  case (2 b0 b1 b2 pixels)
  have "decode (encoded ((b0, b1, b2) # pixels)) =
      decode (symbols b0 @ (symbols b1 @ (symbols b2 @ encoded pixels)))"
    by simp
  also have "\<dots> = Some (b0 # b1 # b2 # scaled_bytes pixels)"
    by (simp only: decode_symbols "2.IH" option.case)
  finally show ?case by simp
qed

lemma showPixels_heap:
  assumes "showPixels e s px = Inr s'"
  shows "heap_calls s' =
     (if length px * 3 * 8 + RESET_LENGTH \<noteq> mSize s
      then heap_calls s @ released s @ [Malloc (request e (length px * 3 * 8 + RESET_LENGTH))]
      else heap_calls s)"
proof -
  from assms obtain s1 spi where
    s1: "ensure e s (length px * 3 * 8 + RESET_LENGTH) = Inr s1"
    and s': "s' = s1\<lparr>hspi := Some (sent spi (encoded px) (24 * length px)),
             led_data := map_option (\<lambda>buf. encoded px @ drop (24 * length px) buf) (led_data s1)\<rparr>"
    by (rule showPixels_InrE)
  from ensure_Inr [OF s1] show ?thesis
    by (simp add: s' split: if_splits)
qed

lemma showPixels_reallocations:
  assumes "showPixels e s px = Inr s'"
  shows "reallocations s' =
     reallocations s + (if length px * 3 * 8 + RESET_LENGTH \<noteq> mSize s then 1 else 0)"
  by (simp add: reallocations_def showPixels_heap [OF assms] released_def)

lemma showPixels_same_size:
  assumes "showPixels e s px = Inr s'" and "length px * 3 * 8 + RESET_LENGTH = mSize s"
  shows "drop (24 * length px) (buffer s') = drop (24 * length px) (buffer s)"
proof -
  from assms(1) obtain s1 spi where
    s1: "ensure e s (length px * 3 * 8 + RESET_LENGTH) = Inr s1"
    and nn: "led_data s1 \<noteq> None \<or> px = []"
    and len: "24 * length px \<le> length (buffer s1)"
    and s': "s' = s1\<lparr>hspi := Some (sent spi (encoded px) (24 * length px)),
             led_data := map_option (\<lambda>buf. encoded px @ drop (24 * length px) buf) (led_data s1)\<rparr>"
    by (rule showPixels_InrE)
  from ensure_Inr [OF s1] assms(2) have "s1 = s"
    by (simp add: RESET_LENGTH_def)
  with nn len show ?thesis
    by (cases "led_data s") (auto simp: s' buffer_def length_encoded)
qed

lemma showPixels_new_size:
  assumes "showPixels e s px = Inr s'" and "length px * 3 * 8 + RESET_LENGTH \<noteq> mSize s"
  shows "take RESET_LENGTH (drop (24 * length px) (buffer s')) = replicate RESET_LENGTH 0"
proof -
  from assms(1) obtain s1 spi where
    s1: "ensure e s (length px * 3 * 8 + RESET_LENGTH) = Inr s1"
    and s': "s' = s1\<lparr>hspi := Some (sent spi (encoded px) (24 * length px)),
             led_data := map_option (\<lambda>buf. encoded px @ drop (24 * length px) buf) (led_data s1)\<rparr>"
    by (rule showPixels_InrE)
  from ensure_Inr [OF s1] assms(2) show ?thesis
    by (simp add: s' buffer_def length_encoded RESET_LENGTH_def)
qed

lemma cycles_append:
  "cycles s (xs @ ys) = (case cycles s xs of Inl f \<Rightarrow> Inl f | Inr s' \<Rightarrow> cycles s' ys)"
  by (induction s xs rule: cycles.induct) (simp_all split: sum.splits)

lemma cycles_reallocations:
  "cycles s runs = Inr s' \<Longrightarrow>
     reallocations s' = reallocations s + size_changes (mSize s) (map required runs)"
proof (induction s runs rule: cycles.induct)
  case (1 s)
  then show ?case by simp
next
  case (2 s e px rest)
  from "2.prems" obtain s1 where s1: "showPixels e s px = Inr s1" and r: "cycles s1 rest = Inr s'"
    by (auto split: sum.splits)
  from "2.IH" [OF s1 r] showPixels_reallocations [OF s1] showPixels_mSize [OF s1]
  show ?case by (simp add: required_def mult.commute)
qed

lemma showPixels_again: "showPixels env4 after_one_pixel one_pixel = Inr after_two_cycles"
proof -
  let ?spi = "\<lparr>bus = HSPI, calls =
         [Begin,
          BeginTransaction \<lparr>clock = 6400000, bitOrder = MSBFIRST, dataMode = SPI_MODE0\<rparr>,
          WriteBytes one_pixel_symbols 24,
          EndTransaction]\<rparr>"
  let ?buf = "one_pixel_symbols @ replicate 10 0 @ replicate 102 (0xAA::byte)"
  have l: "length one_pixel = 1"
    by (simp add: one_pixel_def)
  have ls: "length one_pixel_symbols = 24"
    by (simp add: one_pixel_symbols_def)
  have m: "length one_pixel * 3 * 8 + RESET_LENGTH = mSize after_one_pixel"
    by (simp add: l RESET_LENGTH_def after_one_pixel_def)
  have e: "ensure env4 after_one_pixel (length one_pixel * 3 * 8 + RESET_LENGTH) = Inr after_one_pixel"
    unfolding m by (rule ensure_same)
  have "showPixels env4 after_one_pixel one_pixel =
      Inr (after_one_pixel\<lparr>hspi := Some (sent ?spi (encoded one_pixel) (24 * length one_pixel)),
             led_data := Some (encoded one_pixel @ drop (24 * length one_pixel) ?buf)\<rparr>)"
    by (rule showPixels_run [OF _ e])
      (simp_all add: l ls RESET_LENGTH_def INT_MAX_def after_one_pixel_def)
  also have "\<dots> = Inr after_two_cycles"
    by (simp add: l ls encoded_one_pixel after_two_cycles_def after_one_pixel_def sent_def)
  finally show ?thesis .
qed

lemma write_sizes_append: "write_sizes (xs @ ys) = write_sizes xs @ write_sizes ys"
  by (induction xs rule: write_sizes.induct) simp_all

lemma showPixels_completes:
  assumes "hspi s = Some spi" and "tail_zeroed s"
    and "length px * 3 * 8 + RESET_LENGTH \<le> INT_MAX"
    and "length px * 3 * 8 + RESET_LENGTH = mSize s \<or>
         can_allocate e (request e (length px * 3 * 8 + RESET_LENGTH)) \<and>
         length px * 3 * 8 + RESET_LENGTH \<le> request e (length px * 3 * 8 + RESET_LENGTH)"
  shows "\<exists>s'. showPixels e s px = Inr s'"
proof -
  let ?n = "length px * 3 * 8 + RESET_LENGTH"
  have r: "RESET_LENGTH \<le> ?n" by simp
  from assms(4) obtain s1 where s1: "ensure e s ?n = Inr s1"
    using ensure_grant [OF _ r, of s e] ensure_same [of e s] by (cases "?n = mSize s") auto
  have "tail_zeroed s1"
    by (rule ensure_tail_zeroed [OF assms(2) s1 r])
  moreover have "mSize s1 = ?n"
    using ensure_Inr [OF s1 r] by simp
  ultimately obtain buf where buf: "led_data s1 = Some buf" and len: "?n \<le> length buf"
    by (auto simp: tail_zeroed_def RESET_LENGTH_def split: option.splits)
  from len have "24 * length px \<le> length buf" by simp
  from showPixels_run [OF assms(3) s1 assms(1) buf this] show ?thesis by blast
qed

lemma showPixels_transmitted:
  assumes "showPixels e s px = Inr s'"
  shows "transmitted_lengths s' = transmitted_lengths s @ [length px * 24]"
proof -
  from showPixels_bus [OF assms] obtain spi where
    "hspi s = Some spi"
    and "hspi s' = Some (sent spi (take (24 * length px) (buffer s')) (24 * length px))"
    by blast
  then show ?thesis
    by (simp add: transmitted_lengths_def sent_def write_sizes_append mult.commute)
qed

lemma showPixels_allocation_fails:
  assumes "length px * 3 * 8 + RESET_LENGTH \<le> INT_MAX"
    and "length px * 3 * 8 + RESET_LENGTH \<noteq> mSize s"
    and "\<not> can_allocate e (request e (length px * 3 * 8 + RESET_LENGTH))"
  shows "showPixels e s px =
     Inl (NullStore, s\<lparr>led_data := None, mSize := length px * 3 * 8 + RESET_LENGTH,
       heap_calls := heap_calls s @ released s
         @ [Malloc (request e (length px * 3 * 8 + RESET_LENGTH))]\<rparr>)"
proof -
  have r: "RESET_LENGTH \<le> length px * 3 * 8 + RESET_LENGTH" by simp
  note e = ensure_fail [OF assms(2) r assms(3)]
  show ?thesis
    unfolding showPixels_def Let_def e using assms(1) by simp
qed

lemma showPixels_hspi:
  assumes "showPixels e s px = Inr s'"
  shows "hspi s' \<noteq> None"
  using showPixels_bus [OF assms] by auto

lemma cycles_reachable:
  "reachable s \<Longrightarrow> cycles s runs = Inr s' \<Longrightarrow> reachable s'"
proof (induction s runs rule: cycles.induct)
  case (1 s)
  then show ?case by simp
next
  case (2 s e px rest)
  from "2.prems"(2) obtain s1 where s1: "showPixels e s px = Inr s1" and r: "cycles s1 rest = Inr s'"
    by (auto split: sum.splits)
  from "2.IH" [OF s1 reachable.cycle [OF "2.prems"(1) s1] r] show ?case .
qed

lemma showPixels_led_data:
  assumes "tail_zeroed s" and "showPixels e s px = Inr s'"
  shows "led_data s' \<noteq> None"
proof -
  have "tail_zeroed s'" by (rule showPixels_tail_zeroed [OF assms])
  moreover have "mSize s' = length px * 24 + RESET_LENGTH"
    by (rule showPixels_mSize [OF assms(2)])
  ultimately show ?thesis
    by (auto simp: tail_zeroed_def RESET_LENGTH_def split: option.splits)
qed

section \<open>Properties\<close>

text \<open>
  C1: the length passed to the transmit write. The claim is that for n pixels it is
  \<open>n * 24 + RESET_LENGTH\<close>, the reset tail included. The source passes the cursor
  \<^verbatim>\<open>cur\<close> (line 174), which counts the encoded bytes only: every completed drive
  cycle makes one write of length \<open>n * 24\<close>, which is \<open>RESET_LENGTH\<close> short of the
  recorded buffer size, so the zeroed tail is never transmitted.
\<close>

theorem transmitted_length_excludes_reset_tail:
  assumes "showPixels e s px = Inr s'"
  shows "transmitted_lengths s' = transmitted_lengths s @ [length px * 24] \<and>
     mSize s' = length px * 24 + RESET_LENGTH \<and>
     length px * 24 < length px * 24 + RESET_LENGTH"
  using showPixels_transmitted [OF assms] showPixels_mSize [OF assms]
  by (simp add: RESET_LENGTH_def)

theorem transmitted_length_excludes_reset_tail_witness:
  "showPixels env4 (init initial) one_pixel = Inr after_one_pixel \<and>
   transmitted_lengths (init initial) = [] \<and>
   transmitted_lengths after_one_pixel = [24] \<and>
   mSize after_one_pixel = 24 + RESET_LENGTH"
proof -
  have t: "transmitted_lengths (init initial) = []"
    by (simp add: transmitted_lengths_def hspi_init_initial)
  from transmitted_length_excludes_reset_tail [OF showPixels_one_pixel] showPixels_one_pixel t
  show ?thesis by (simp add: one_pixel_def)
qed

text \<open>
  C2: encoding one scaled byte. Whatever the byte (all 256 values of the type), the eight
  stores of lines 143-150 write exactly eight buffer positions, advance the cursor by eight
  and leave every other position as it was; the position written i-th (i = 0 first) holds
  \<open>0xf8\<close> if bit \<open>7 - i\<close> of the byte is set and \<open>0x80\<close> otherwise, that is, the
  bits appear most significant first.
\<close>

theorem encode_byte_msb_first:
  assumes "cur + 8 \<le> length buf"
  shows "\<exists>buf'. encode_byte (Inr (Some buf, cur)) b = Inr (Some buf', cur + 8) \<and>
     length buf' = length buf \<and>
     (\<forall>i<8. buf' ! (cur + i) = (if bit b (7 - i) then 0xf8 else 0x80)) \<and>
     (\<forall>j<length buf. j < cur \<or> cur + 8 \<le> j \<longrightarrow> buf' ! j = buf ! j)"
proof -
  let ?buf' = "take cur buf @ symbols b @ drop (cur + 8) buf"
  have run: "encode_byte (Inr (Some buf, cur)) b = Inr (Some ?buf', cur + 8)"
    using assms by (simp add: encode_byte_foldl foldl_emit_Some length_symbols symbols_not_Nil)
  have len: "length ?buf' = length buf"
    using assms by (simp add: length_symbols)
  have written: "?buf' ! (cur + i) = (if bit b (7 - i) then 0xf8 else 0x80)" if "i < 8" for i
    using assms that by (simp add: nth_append length_symbols symbols_nth mOne_def mZero_def)
  have kept: "?buf' ! j = buf ! j" if "j < length buf" "j < cur \<or> cur + 8 \<le> j" for j
    using assms that by (auto simp: nth_append length_symbols)
  from run len written kept show ?thesis by blast
qed

theorem encode_byte_msb_first_witness:
  "(2::nat) + 8 \<le> length (replicate 12 (0::byte)) \<and>
   (\<exists>buf'. encode_byte (Inr (Some (replicate 12 0), 2)) 0x81 = Inr (Some buf', 2 + 8) \<and>
     length buf' = length (replicate 12 (0::byte)) \<and>
     buf' ! 2 = 0xf8 \<and> buf' ! 3 = 0x80 \<and> buf' ! 8 = 0x80 \<and> buf' ! 9 = 0xf8 \<and>
     buf' ! 1 = 0 \<and> buf' ! 10 = 0)"
proof -
  have h: "(2::nat) + 8 \<le> length (replicate 12 (0::byte))" by simp
  from encode_byte_msb_first [OF h, of "0x81"] obtain buf' where
    r: "encode_byte (Inr (Some (replicate 12 0), 2)) 0x81 = Inr (Some buf', 2 + 8)"
    and l: "length buf' = length (replicate 12 (0::byte))"
    and w: "\<forall>i<8. buf' ! (2 + i) = (if bit (0x81::byte) (7 - i) then 0xf8 else 0x80)"
    and k: "\<forall>j<length (replicate 12 (0::byte)). j < 2 \<or> 2 + 8 \<le> j \<longrightarrow> buf' ! j = replicate 12 (0::byte) ! j"
    by blast
  have "buf' ! 2 = 0xf8" using w [rule_format, of 0] by simp
  moreover have "buf' ! 3 = 0x80" using w [rule_format, of 1] by simp
  moreover have "buf' ! 8 = 0x80" using w [rule_format, of 6] by simp
  moreover have "buf' ! 9 = 0xf8" using w [rule_format, of 7] by simp
  moreover have "buf' ! 1 = 0" using k [rule_format, of 1] by simp
  moreover have "buf' ! 10 = 0" using k [rule_format, of 10] by simp
  ultimately show ?thesis using h r l by blast
qed

text \<open>
  C3: the frame after a drive cycle. For every number n of pixels, a drive cycle of a
  reachable controller that has a bus completes whenever the frame size fits an
  \<^verbatim>\<open>int\<close> and, where the size changes, the allocation is granted and covers the frame;
  after it the recorded size and the length of the frame buffer are
  \<open>n * 24 + RESET_LENGTH\<close>, with \<open>RESET_LENGTH = 10\<close>, and the last
  \<open>RESET_LENGTH\<close> bytes of the frame are zero. (The allocation behind the frame is
  \<^verbatim>\<open>sizeof(rmt_data_t)\<close> times as long; the bytes beyond the frame are never written.)
\<close>

theorem frame_length_and_reset_tail:
  assumes "reachable s" and "hspi s = Some spi"
    and "length px * 3 * 8 + RESET_LENGTH \<le> INT_MAX"
    and "length px * 3 * 8 + RESET_LENGTH = mSize s \<or>
         can_allocate e (request e (length px * 3 * 8 + RESET_LENGTH)) \<and>
         length px * 3 * 8 + RESET_LENGTH \<le> request e (length px * 3 * 8 + RESET_LENGTH)"
  shows "\<exists>s'. showPixels e s px = Inr s' \<and>
     mSize s' = length px * 24 + RESET_LENGTH \<and>
     length (frame_buffer s') = length px * 24 + RESET_LENGTH \<and>
     drop (length px * 24) (frame_buffer s') = replicate RESET_LENGTH 0 \<and>
     RESET_LENGTH = 10"
proof -
  have "\<exists>s'. showPixels e s px = Inr s'"
    by (rule showPixels_completes [OF assms(2) reachable_tail_zeroed [OF assms(1)] assms(3,4)])
  then obtain s' where run: "showPixels e s px = Inr s'" ..
  have m: "mSize s' = length px * 24 + RESET_LENGTH"
    by (rule showPixels_mSize [OF run])
  have "tail_zeroed s'"
    by (rule reachable_tail_zeroed [OF reachable.cycle [OF assms(1) run]])
  then obtain buf where buf: "led_data s' = Some buf"
    and len: "mSize s' \<le> length buf"
    and z: "take RESET_LENGTH (drop (mSize s' - RESET_LENGTH) buf) = replicate RESET_LENGTH 0"
    using m by (auto simp: tail_zeroed_def RESET_LENGTH_def split: option.splits)
  have fb: "frame_buffer s' = take (length px * 24 + RESET_LENGTH) buf"
    by (simp add: frame_buffer_def buffer_def buf m)
  have "drop (length px * 24) (frame_buffer s') = take RESET_LENGTH (drop (length px * 24) buf)"
    by (simp add: fb drop_take)
  with z m len fb have "mSize s' = length px * 24 + RESET_LENGTH \<and>
     length (frame_buffer s') = length px * 24 + RESET_LENGTH \<and>
     drop (length px * 24) (frame_buffer s') = replicate RESET_LENGTH 0 \<and>
     RESET_LENGTH = 10"
    by (simp add: RESET_LENGTH_def)
  with run show ?thesis by blast
qed

theorem frame_length_and_reset_tail_witness:
  "reachable (init initial) \<and>
   hspi (init initial) = Some \<lparr>bus = HSPI, calls = [Begin]\<rparr> \<and>
   length one_pixel * 3 * 8 + RESET_LENGTH \<le> INT_MAX \<and>
   can_allocate env4 (request env4 (length one_pixel * 3 * 8 + RESET_LENGTH)) \<and>
   length one_pixel * 3 * 8 + RESET_LENGTH \<le> request env4 (length one_pixel * 3 * 8 + RESET_LENGTH) \<and>
   (\<exists>s'. showPixels env4 (init initial) one_pixel = Inr s' \<and> s' = after_one_pixel \<and>
     mSize s' = 34 \<and> length (frame_buffer s') = 34 \<and>
     drop 24 (frame_buffer s') = replicate 10 0)"
proof -
  have a: "length one_pixel * 3 * 8 + RESET_LENGTH \<le> INT_MAX"
    by (simp add: one_pixel_def RESET_LENGTH_def INT_MAX_def)
  have b: "can_allocate env4 (request env4 (length one_pixel * 3 * 8 + RESET_LENGTH)) \<and>
      length one_pixel * 3 * 8 + RESET_LENGTH
        \<le> request env4 (length one_pixel * 3 * 8 + RESET_LENGTH)"
    by (simp add: env4_def request_def one_pixel_def RESET_LENGTH_def)
  then have c: "length one_pixel * 3 * 8 + RESET_LENGTH = mSize (init initial) \<or>
      can_allocate env4 (request env4 (length one_pixel * 3 * 8 + RESET_LENGTH)) \<and>
      length one_pixel * 3 * 8 + RESET_LENGTH
        \<le> request env4 (length one_pixel * 3 * 8 + RESET_LENGTH)"
    by simp
  from frame_length_and_reset_tail [OF reachable_init_initial hspi_init_initial a c]
  obtain s' where "showPixels env4 (init initial) one_pixel = Inr s'"
    and "mSize s' = length one_pixel * 24 + RESET_LENGTH"
    and "length (frame_buffer s') = length one_pixel * 24 + RESET_LENGTH"
    and "drop (length one_pixel * 24) (frame_buffer s') = replicate RESET_LENGTH 0"
    by blast
  moreover from this(1) have "s' = after_one_pixel"
    by (simp add: showPixels_one_pixel)
  ultimately have "\<exists>s'. showPixels env4 (init initial) one_pixel = Inr s' \<and> s' = after_one_pixel \<and>
     mSize s' = 34 \<and> length (frame_buffer s') = 34 \<and>
     drop 24 (frame_buffer s') = replicate 10 0"
    by (simp add: one_pixel_def RESET_LENGTH_def)
  with reachable_init_initial hspi_init_initial a b show ?thesis by blast
qed

text \<open>
  C4: reallocation happens exactly on a size change. Take a drive cycle after any sequence of
  completed cycles of a reachable controller, with a bus, a frame size that fits an
  \<^verbatim>\<open>int\<close> and, where the size changes, a granted allocation that covers the frame.
  The cycle completes. It calls the allocator if and only if its required size differs from
  the recorded size, and then it makes exactly one \<^verbatim>\<open>free\<close> of the old buffer (if
  there is one) followed by exactly one \<^verbatim>\<open>malloc\<close>; over the whole sequence the
  number of reallocations is the number of size changes. A reallocating cycle leaves the last
  \<open>RESET_LENGTH\<close> bytes of the frame zero, and a cycle that does not reallocate leaves
  every byte from the reset tail on as it was. A following cycle with the same pixel count
  completes with no call to the allocator and the tail untouched; a following cycle with
  another pixel count (and a granted allocation) completes with exactly one
  \<^verbatim>\<open>free\<close> and one \<^verbatim>\<open>malloc\<close> and a zero tail.
\<close>

theorem reallocation_iff_size_change:
  assumes "reachable s0" and "cycles s0 before = Inr s" and "hspi s = Some spi"
    and "length px * 3 * 8 + RESET_LENGTH \<le> INT_MAX"
    and "length px * 3 * 8 + RESET_LENGTH = mSize s \<or>
         can_allocate e (request e (length px * 3 * 8 + RESET_LENGTH)) \<and>
         length px * 3 * 8 + RESET_LENGTH \<le> request e (length px * 3 * 8 + RESET_LENGTH)"
  shows "\<exists>s'. showPixels e s px = Inr s' \<and>
     (heap_calls s' \<noteq> heap_calls s) = (length px * 3 * 8 + RESET_LENGTH \<noteq> mSize s) \<and>
     heap_calls s' =
       heap_calls s @
       (if length px * 3 * 8 + RESET_LENGTH \<noteq> mSize s
        then (if led_data s \<noteq> None then [Free] else [])
          @ [Malloc (((length px * 3 * 8 + RESET_LENGTH) * sizeof_rmt_data_t e) mod 2 ^ 32)]
        else []) \<and>
     reallocations s' =
       reallocations s + (if length px * 3 * 8 + RESET_LENGTH \<noteq> mSize s then 1 else 0) \<and>
     reallocations s' =
       reallocations s0 + size_changes (mSize s0) (map required (before @ [(e, px)])) \<and>
     mSize s' = length px * 3 * 8 + RESET_LENGTH \<and>
     (if length px * 3 * 8 + RESET_LENGTH \<noteq> mSize s
      then take RESET_LENGTH (drop (length px * 3 * 8) (buffer s')) = replicate RESET_LENGTH 0
      else drop (length px * 3 * 8) (buffer s') = drop (length px * 3 * 8) (buffer s)) \<and>
     (\<forall>e2 px2. length px2 = length px \<longrightarrow>
        (\<exists>s2. showPixels e2 s' px2 = Inr s2 \<and> heap_calls s2 = heap_calls s' \<and>
           drop (length px * 3 * 8) (buffer s2) = drop (length px * 3 * 8) (buffer s'))) \<and>
     (\<forall>e2 px2. length px2 \<noteq> length px \<and>
          length px2 * 3 * 8 + RESET_LENGTH \<le> INT_MAX \<and>
          can_allocate e2 (request e2 (length px2 * 3 * 8 + RESET_LENGTH)) \<and>
          length px2 * 3 * 8 + RESET_LENGTH \<le> request e2 (length px2 * 3 * 8 + RESET_LENGTH) \<longrightarrow>
        (\<exists>s2. showPixels e2 s' px2 = Inr s2 \<and>
           heap_calls s2 = heap_calls s' @
             [Free, Malloc (((length px2 * 3 * 8 + RESET_LENGTH) * sizeof_rmt_data_t e2) mod 2 ^ 32)] \<and>
           take RESET_LENGTH (drop (length px2 * 3 * 8) (buffer s2)) = replicate RESET_LENGTH 0))"
proof -
  let ?n = "length px * 3 * 8 + RESET_LENGTH"
  have rs: "reachable s"
    by (rule cycles_reachable [OF assms(1,2)])
  have zs: "tail_zeroed s"
    by (rule reachable_tail_zeroed [OF rs])
  have "\<exists>s'. showPixels e s px = Inr s'"
    by (rule showPixels_completes [OF assms(3) zs assms(4,5)])
  then obtain s' where run: "showPixels e s px = Inr s'" ..
  have all: "cycles s0 (before @ [(e, px)]) = Inr s'"
    using assms(2) run by (simp add: cycles_append)
  have m: "mSize s' = ?n"
    using showPixels_mSize [OF run] by simp
  have z': "tail_zeroed s'"
    by (rule showPixels_tail_zeroed [OF zs run])
  have l': "led_data s' \<noteq> None"
    by (rule showPixels_led_data [OF zs run])
  from showPixels_hspi [OF run] obtain spi' where h': "hspi s' = Some spi'"
    by auto
  have le: "?n \<le> INT_MAX" by (rule assms(4))
  have c1: "heap_calls s' =
       heap_calls s @
       (if ?n \<noteq> mSize s
        then (if led_data s \<noteq> None then [Free] else [])
          @ [Malloc ((?n * sizeof_rmt_data_t e) mod 2 ^ 32)]
        else [])"
    by (simp add: showPixels_heap [OF run] released_def request_def)
  have c0: "(heap_calls s' \<noteq> heap_calls s) = (?n \<noteq> mSize s)"
    by (simp add: showPixels_heap [OF run])
  have c2: "reallocations s' = reallocations s + (if ?n \<noteq> mSize s then 1 else 0)"
    by (rule showPixels_reallocations [OF run])
  have c3: "reallocations s' =
      reallocations s0 + size_changes (mSize s0) (map required (before @ [(e, px)]))"
    by (rule cycles_reallocations [OF all])
  have c4: "if ?n \<noteq> mSize s
      then take RESET_LENGTH (drop (length px * 3 * 8) (buffer s')) = replicate RESET_LENGTH 0
      else drop (length px * 3 * 8) (buffer s') = drop (length px * 3 * 8) (buffer s)"
    using showPixels_new_size [OF run] showPixels_same_size [OF run]
    by (simp add: mult.commute)
  have c5: "\<exists>s2. showPixels e2 s' px2 = Inr s2 \<and> heap_calls s2 = heap_calls s' \<and>
           drop (length px * 3 * 8) (buffer s2) = drop (length px * 3 * 8) (buffer s')"
    if eq: "length px2 = length px" for e2 px2
  proof -
    have same: "length px2 * 3 * 8 + RESET_LENGTH = mSize s'"
      by (simp add: m eq)
    have "\<exists>s2. showPixels e2 s' px2 = Inr s2"
      by (rule showPixels_completes [OF h' z']) (use same le eq in simp_all)
    then obtain s2 where r2: "showPixels e2 s' px2 = Inr s2" ..
    have "heap_calls s2 = heap_calls s'"
      using same by (simp add: showPixels_heap [OF r2])
    moreover have "drop (length px * 3 * 8) (buffer s2) = drop (length px * 3 * 8) (buffer s')"
      using showPixels_same_size [OF r2 same] by (simp add: eq mult.commute)
    ultimately show ?thesis using r2 by blast
  qed
  have c6: "\<exists>s2. showPixels e2 s' px2 = Inr s2 \<and>
           heap_calls s2 = heap_calls s' @
             [Free, Malloc (((length px2 * 3 * 8 + RESET_LENGTH) * sizeof_rmt_data_t e2) mod 2 ^ 32)] \<and>
           take RESET_LENGTH (drop (length px2 * 3 * 8) (buffer s2)) = replicate RESET_LENGTH 0"
    if h: "length px2 \<noteq> length px \<and>
          length px2 * 3 * 8 + RESET_LENGTH \<le> INT_MAX \<and>
          can_allocate e2 (request e2 (length px2 * 3 * 8 + RESET_LENGTH)) \<and>
          length px2 * 3 * 8 + RESET_LENGTH \<le> request e2 (length px2 * 3 * 8 + RESET_LENGTH)"
    for e2 px2
  proof -
    have diff: "length px2 * 3 * 8 + RESET_LENGTH \<noteq> mSize s'"
      using h by (simp add: m)
    have "\<exists>s2. showPixels e2 s' px2 = Inr s2"
      by (rule showPixels_completes [OF h' z']) (use h in simp_all)
    then obtain s2 where r2: "showPixels e2 s' px2 = Inr s2" ..
    have "heap_calls s2 = heap_calls s' @
             [Free, Malloc (((length px2 * 3 * 8 + RESET_LENGTH) * sizeof_rmt_data_t e2) mod 2 ^ 32)]"
      using diff l' by (simp add: showPixels_heap [OF r2] released_def request_def)
    moreover have "take RESET_LENGTH (drop (length px2 * 3 * 8) (buffer s2)) = replicate RESET_LENGTH 0"
      using showPixels_new_size [OF r2 diff] by (simp add: mult.commute)
    ultimately show ?thesis using r2 by blast
  qed
  from run c0 c1 c2 c3 m c4 c5 c6 show ?thesis by blast
qed

theorem reallocation_iff_size_change_witness:
  "reachable (init initial) \<and>
   cycles (init initial) [(env4, one_pixel)] = Inr after_one_pixel \<and>
   hspi after_one_pixel \<noteq> None \<and>
   length one_pixel * 3 * 8 + RESET_LENGTH = mSize after_one_pixel \<and>
   length one_pixel * 3 * 8 + RESET_LENGTH \<le> INT_MAX \<and>
   (\<exists>s'. showPixels env4 after_one_pixel one_pixel = Inr s' \<and>
      heap_calls s' = [Malloc 136] \<and> reallocations s' = 1 \<and>
      drop 24 (buffer s') = drop 24 (buffer after_one_pixel)) \<and>
   length ([]::PixelController) * 3 * 8 + RESET_LENGTH \<le> INT_MAX \<and>
   can_allocate env4 (request env4 (length ([]::PixelController) * 3 * 8 + RESET_LENGTH)) \<and>
   length ([]::PixelController) * 3 * 8 + RESET_LENGTH
     \<le> request env4 (length ([]::PixelController) * 3 * 8 + RESET_LENGTH) \<and>
   (\<exists>s'. showPixels env4 after_one_pixel [] = Inr s' \<and>
      heap_calls s' = [Malloc 136, Free, Malloc 40] \<and> reallocations s' = 2 \<and>
      mSize s' = 10 \<and> take 10 (buffer s') = replicate 10 0)"
proof -
  let ?spi = "\<lparr>bus = HSPI, calls =
         [Begin,
          BeginTransaction \<lparr>clock = 6400000, bitOrder = MSBFIRST, dataMode = SPI_MODE0\<rparr>,
          WriteBytes one_pixel_symbols 24,
          EndTransaction]\<rparr>"
  have c: "cycles (init initial) [(env4, one_pixel)] = Inr after_one_pixel"
    by (simp add: showPixels_one_pixel)
  have h: "hspi after_one_pixel = Some ?spi"
    and hc: "heap_calls after_one_pixel = [Malloc 136]"
    and ld: "led_data after_one_pixel \<noteq> None"
    and m: "mSize after_one_pixel = 34"
    by (simp_all add: after_one_pixel_def)
  have r1: "reallocations after_one_pixel = 1"
    by (simp add: reallocations_def hc)
  have l: "length one_pixel = 1"
    by (simp add: one_pixel_def)
  have a1: "length one_pixel * 3 * 8 + RESET_LENGTH \<le> INT_MAX"
    by (simp add: l RESET_LENGTH_def INT_MAX_def)
  have same: "length one_pixel * 3 * 8 + RESET_LENGTH = mSize after_one_pixel"
    by (simp add: l m RESET_LENGTH_def)
  then have b1: "length one_pixel * 3 * 8 + RESET_LENGTH = mSize after_one_pixel \<or>
      can_allocate env4 (request env4 (length one_pixel * 3 * 8 + RESET_LENGTH)) \<and>
      length one_pixel * 3 * 8 + RESET_LENGTH
        \<le> request env4 (length one_pixel * 3 * 8 + RESET_LENGTH)"
    by simp
  have a2: "length ([]::PixelController) * 3 * 8 + RESET_LENGTH \<le> INT_MAX"
    by (simp add: RESET_LENGTH_def INT_MAX_def)
  have g2: "can_allocate env4 (request env4 (length ([]::PixelController) * 3 * 8 + RESET_LENGTH)) \<and>
      length ([]::PixelController) * 3 * 8 + RESET_LENGTH
        \<le> request env4 (length ([]::PixelController) * 3 * 8 + RESET_LENGTH)"
    by (simp add: env4_def request_def RESET_LENGTH_def)
  then have b2: "length ([]::PixelController) * 3 * 8 + RESET_LENGTH = mSize after_one_pixel \<or>
      can_allocate env4 (request env4 (length ([]::PixelController) * 3 * 8 + RESET_LENGTH)) \<and>
      length ([]::PixelController) * 3 * 8 + RESET_LENGTH
        \<le> request env4 (length ([]::PixelController) * 3 * 8 + RESET_LENGTH)"
    by simp
  have k: "sizeof_rmt_data_t env4 = 4"
    by (simp add: env4_def)
  from reallocation_iff_size_change [OF reachable_init_initial c h a1 b1]
  have first: "\<exists>s'. showPixels env4 after_one_pixel one_pixel = Inr s' \<and>
      heap_calls s' = [Malloc 136] \<and> reallocations s' = 1 \<and>
      drop 24 (buffer s') = drop 24 (buffer after_one_pixel)"
    using same by (auto simp: hc r1 l)
  from reallocation_iff_size_change [OF reachable_init_initial c h a2 b2]
  have second: "\<exists>s'. showPixels env4 after_one_pixel [] = Inr s' \<and>
      heap_calls s' = [Malloc 136, Free, Malloc 40] \<and> reallocations s' = 2 \<and>
      mSize s' = 10 \<and> take 10 (buffer s') = replicate 10 0"
    using ld by (auto simp: hc r1 m k RESET_LENGTH_def)
  from reachable_init_initial c h same a1 first a2 g2 second show ?thesis
    by simp
qed

text \<open>
  C5: round trip. The encoding loop, on any buffer with room for \<open>24 * n\<close> bytes, runs to
  the end and leaves an encoded region that decodes (each symbol byte back to a bit, eight
  bits per byte, most significant first) to exactly the scaled bytes of the pixel source,
  channel 0, 1, 2 of each pixel in order. A drive cycle of a reachable controller with a bus
  completes (frame size within \<^verbatim>\<open>int\<close>, allocation granted where the size changes),
  and both the encoded region of its buffer and the bytes it hands to
  \<^verbatim>\<open>writeBytes\<close> decode to the scaled bytes.
\<close>

theorem decode_roundtrip:
  assumes "reachable s" and "hspi s = Some spi"
    and "length px * 3 * 8 + RESET_LENGTH \<le> INT_MAX"
    and "length px * 3 * 8 + RESET_LENGTH = mSize s \<or>
         can_allocate e (request e (length px * 3 * 8 + RESET_LENGTH)) \<and>
         length px * 3 * 8 + RESET_LENGTH \<le> request e (length px * 3 * 8 + RESET_LENGTH)"
  shows "(\<exists>s' bytes. showPixels e s px = Inr s' \<and>
       decode (take (24 * length px) (buffer s')) = Some (scaled_bytes px) \<and>
       hspi s' = Some (spi\<lparr>calls := calls spi @
         [BeginTransaction \<lparr>clock = 6400000, bitOrder = MSBFIRST, dataMode = SPI_MODE0\<rparr>,
          WriteBytes bytes (24 * length px),
          EndTransaction]\<rparr>) \<and>
       decode bytes = Some (scaled_bytes px)) \<and>
     (\<forall>buf. 24 * length px \<le> length buf \<longrightarrow>
       (\<exists>buf'. encode_loop (Inr (Some buf, 0)) px = Inr (Some buf', 24 * length px) \<and>
          decode (take (24 * length px) buf') = Some (scaled_bytes px)))"
proof (intro conjI allI impI)
  have "\<exists>s'. showPixels e s px = Inr s'"
    by (rule showPixels_completes [OF assms(2) reachable_tail_zeroed [OF assms(1)] assms(3,4)])
  then obtain s' where run: "showPixels e s px = Inr s'" ..
  have d: "decode (take (24 * length px) (buffer s')) = Some (scaled_bytes px)"
    using showPixels_buffer [OF run] by (simp add: decode_encoded)
  from showPixels_bus [OF run] assms(2)
  have "hspi s' = Some (spi\<lparr>calls := calls spi @
         [BeginTransaction \<lparr>clock = 6400000, bitOrder = MSBFIRST, dataMode = SPI_MODE0\<rparr>,
          WriteBytes (take (24 * length px) (buffer s')) (24 * length px),
          EndTransaction]\<rparr>)"
    by (simp add: sent_def)
  with run d show "\<exists>s' bytes. showPixels e s px = Inr s' \<and>
       decode (take (24 * length px) (buffer s')) = Some (scaled_bytes px) \<and>
       hspi s' = Some (spi\<lparr>calls := calls spi @
         [BeginTransaction \<lparr>clock = 6400000, bitOrder = MSBFIRST, dataMode = SPI_MODE0\<rparr>,
          WriteBytes bytes (24 * length px),
          EndTransaction]\<rparr>) \<and>
       decode bytes = Some (scaled_bytes px)"
    by blast
next
  fix buf :: "byte list"
  assume "24 * length px \<le> length buf"
  then show "\<exists>buf'. encode_loop (Inr (Some buf, 0)) px = Inr (Some buf', 24 * length px) \<and>
          decode (take (24 * length px) buf') = Some (scaled_bytes px)"
    by (simp add: encode_loop_Some length_encoded decode_encoded)
qed

theorem decode_roundtrip_witness:
  "reachable (init initial) \<and>
   hspi (init initial) = Some \<lparr>bus = HSPI, calls = [Begin]\<rparr> \<and>
   length one_pixel * 3 * 8 + RESET_LENGTH \<le> INT_MAX \<and>
   can_allocate env4 (request env4 (length one_pixel * 3 * 8 + RESET_LENGTH)) \<and>
   length one_pixel * 3 * 8 + RESET_LENGTH \<le> request env4 (length one_pixel * 3 * 8 + RESET_LENGTH) \<and>
   (\<exists>s'. showPixels env4 (init initial) one_pixel = Inr s' \<and> s' = after_one_pixel \<and>
     decode (take 24 (buffer s')) = Some [0xFF, 0x00, 0x81])"
proof -
  have a: "length one_pixel * 3 * 8 + RESET_LENGTH \<le> INT_MAX"
    by (simp add: one_pixel_def RESET_LENGTH_def INT_MAX_def)
  have b: "can_allocate env4 (request env4 (length one_pixel * 3 * 8 + RESET_LENGTH)) \<and>
      length one_pixel * 3 * 8 + RESET_LENGTH
        \<le> request env4 (length one_pixel * 3 * 8 + RESET_LENGTH)"
    by (simp add: env4_def request_def one_pixel_def RESET_LENGTH_def)
  then have c: "length one_pixel * 3 * 8 + RESET_LENGTH = mSize (init initial) \<or>
      can_allocate env4 (request env4 (length one_pixel * 3 * 8 + RESET_LENGTH)) \<and>
      length one_pixel * 3 * 8 + RESET_LENGTH
        \<le> request env4 (length one_pixel * 3 * 8 + RESET_LENGTH)"
    by simp
  from decode_roundtrip [OF reachable_init_initial hspi_init_initial a c, THEN conjunct1]
  obtain s' where "showPixels env4 (init initial) one_pixel = Inr s'"
    and "decode (take (24 * length one_pixel) (buffer s')) = Some (scaled_bytes one_pixel)"
    by blast
  moreover from this(1) have "s' = after_one_pixel"
    by (simp add: showPixels_one_pixel)
  ultimately have "\<exists>s'. showPixels env4 (init initial) one_pixel = Inr s' \<and> s' = after_one_pixel \<and>
     decode (take 24 (buffer s')) = Some [0xFF, 0x00, 0x81]"
    by (simp add: one_pixel_def)
  with reachable_init_initial hspi_init_initial a b show ?thesis by blast
qed

text \<open>
  C6: for every template configuration and every controller state,
  \<^verbatim>\<open>getMaxRefreshRate\<close> returns exactly 400.
\<close>

theorem getMaxRefreshRate_400:
  "getMaxRefreshRate cfg s = 400"
  by (simp add: getMaxRefreshRate_def)

text \<open>
  C7: the transmit phase. On a controller with a bus, the transmit phase always completes and
  appends exactly three calls to the bus log: one \<^verbatim>\<open>beginTransaction\<close> with the
  settings 6.4 MHz, most significant bit first, mode 0, one \<^verbatim>\<open>writeBytes\<close> of the
  given length, and \<^verbatim>\<open>endTransaction\<close>; every completed drive cycle appends
  exactly these three calls, with the same settings on every invocation.
\<close>

theorem transmit_phase_one_transaction:
  assumes "hspi s = Some spi"
  shows "transmit s cur =
       Inr (s\<lparr>hspi := Some (spi\<lparr>calls := calls spi @
         [BeginTransaction \<lparr>clock = 6400000, bitOrder = MSBFIRST, dataMode = SPI_MODE0\<rparr>,
          WriteBytes (take cur (buffer s)) cur,
          EndTransaction]\<rparr>)\<rparr>) \<and>
     (\<forall>e px s'. showPixels e s px = Inr s' \<longrightarrow>
        hspi s' = Some (spi\<lparr>calls := calls spi @
         [BeginTransaction \<lparr>clock = 6400000, bitOrder = MSBFIRST, dataMode = SPI_MODE0\<rparr>,
          WriteBytes (take (24 * length px) (buffer s')) (24 * length px),
          EndTransaction]\<rparr>))"
proof (intro conjI allI impI)
  show "transmit s cur =
       Inr (s\<lparr>hspi := Some (spi\<lparr>calls := calls spi @
         [BeginTransaction \<lparr>clock = 6400000, bitOrder = MSBFIRST, dataMode = SPI_MODE0\<rparr>,
          WriteBytes (take cur (buffer s)) cur,
          EndTransaction]\<rparr>)\<rparr>)"
    using assms by (simp add: transmit_eq)
next
  fix e px s'
  assume "showPixels e s px = Inr s'"
  from showPixels_bus [OF this] assms
  show "hspi s' = Some (spi\<lparr>calls := calls spi @
         [BeginTransaction \<lparr>clock = 6400000, bitOrder = MSBFIRST, dataMode = SPI_MODE0\<rparr>,
          WriteBytes (take (24 * length px) (buffer s')) (24 * length px),
          EndTransaction]\<rparr>)"
    by (simp add: sent_def)
qed

theorem transmit_phase_one_transaction_witness:
  "hspi (init initial) = Some \<lparr>bus = HSPI, calls = [Begin]\<rparr> \<and>
   showPixels env4 (init initial) one_pixel = Inr after_one_pixel \<and>
   hspi after_one_pixel = Some \<lparr>bus = HSPI, calls =
     [Begin,
      BeginTransaction \<lparr>clock = 6400000, bitOrder = MSBFIRST, dataMode = SPI_MODE0\<rparr>,
      WriteBytes (take 24 (buffer after_one_pixel)) 24,
      EndTransaction]\<rparr>"
  using transmit_phase_one_transaction [OF hspi_init_initial, of 0, THEN conjunct2,
      rule_format, OF showPixels_one_pixel]
    hspi_init_initial showPixels_one_pixel
  by (simp add: one_pixel_def)

text \<open>
  C8: a drive cycle with no pixels. On a reachable controller with a bus, and with the
  allocation granted where one is needed, the cycle completes; the frame buffer then has
  length \<open>RESET_LENGTH\<close> and is all zero, and the bus sees one transaction. The claim has
  this transaction transmit the reset buffer; in the source its single write has length 0 and
  carries no byte (line 174 passes \<^verbatim>\<open>cur\<close>, which is 0 here).
\<close>

theorem zero_pixels_cycle:
  assumes "hspi s = Some spi" and "reachable s"
    and "mSize s = RESET_LENGTH \<or>
         can_allocate e (request e RESET_LENGTH) \<and> RESET_LENGTH \<le> request e RESET_LENGTH"
  shows "\<exists>s'. showPixels e s [] = Inr s' \<and>
     mSize s' = RESET_LENGTH \<and>
     frame_buffer s' = replicate RESET_LENGTH 0 \<and>
     hspi s' = Some (spi\<lparr>calls := calls spi @
       [BeginTransaction \<lparr>clock = 6400000, bitOrder = MSBFIRST, dataMode = SPI_MODE0\<rparr>,
        WriteBytes [] 0,
        EndTransaction]\<rparr>)"
proof -
  have z: "tail_zeroed s"
    by (rule reachable_tail_zeroed [OF assms(2)])
  have "\<exists>s'. showPixels e s [] = Inr s'"
    by (rule showPixels_completes [OF assms(1) z]) (use assms(3) in \<open>auto simp: INT_MAX_def RESET_LENGTH_def\<close>)
  then obtain s' where s': "showPixels e s [] = Inr s'" ..
  have m: "mSize s' = RESET_LENGTH"
    using showPixels_mSize [OF s'] by simp
  have "tail_zeroed s'"
    by (rule showPixels_tail_zeroed [OF z s'])
  with m have fb: "frame_buffer s' = replicate RESET_LENGTH 0"
    by (auto simp: tail_zeroed_def frame_buffer_def buffer_def RESET_LENGTH_def split: option.splits)
  from showPixels_bus [OF s'] assms(1)
  have "hspi s' = Some (spi\<lparr>calls := calls spi @
       [BeginTransaction \<lparr>clock = 6400000, bitOrder = MSBFIRST, dataMode = SPI_MODE0\<rparr>,
        WriteBytes [] 0,
        EndTransaction]\<rparr>)"
    by (simp add: sent_def)
  with s' m fb show ?thesis by blast
qed

theorem zero_pixels_cycle_witness:
  "hspi (init initial) = Some \<lparr>bus = HSPI, calls = [Begin]\<rparr> \<and>
   reachable (init initial) \<and>
   can_allocate env4 (request env4 RESET_LENGTH) \<and> RESET_LENGTH \<le> request env4 RESET_LENGTH \<and>
   (\<exists>s'. showPixels env4 (init initial) [] = Inr s' \<and>
     mSize s' = 10 \<and>
     frame_buffer s' = replicate 10 0 \<and>
     hspi s' = Some \<lparr>bus = HSPI, calls =
       [Begin,
        BeginTransaction \<lparr>clock = 6400000, bitOrder = MSBFIRST, dataMode = SPI_MODE0\<rparr>,
        WriteBytes [] 0,
        EndTransaction]\<rparr>)"
proof -
  have a: "can_allocate env4 (request env4 RESET_LENGTH) \<and> RESET_LENGTH \<le> request env4 RESET_LENGTH"
    by (simp add: env4_def request_def RESET_LENGTH_def)
  then have "mSize (init initial) = RESET_LENGTH \<or>
      can_allocate env4 (request env4 RESET_LENGTH) \<and> RESET_LENGTH \<le> request env4 RESET_LENGTH"
    by simp
  from zero_pixels_cycle [OF hspi_init_initial reachable_init_initial this]
    hspi_init_initial reachable_init_initial a
  show ?thesis by (simp add: RESET_LENGTH_def)
qed

text \<open>
  C9: a failed allocation. The claim is that the old buffer is retained. In the source the
  old buffer is released and the new size recorded before \<^verbatim>\<open>malloc\<close> is called
  (lines 131-134): when the allocation cannot be obtained, the old buffer has been released,
  the recorded size is already the new one and the buffer reference is null; the bus handle
  is unchanged.
\<close>

theorem allocation_failure_loses_buffer:
  assumes "\<not> can_allocate e ((size_needed * sizeof_rmt_data_t e) mod 2 ^ 32)"
  shows "led_data (resize e s size_needed) = None \<and>
     mSize (resize e s size_needed) = size_needed \<and>
     heap_calls (resize e s size_needed) =
       heap_calls s @ (if led_data s \<noteq> None then [Free] else [])
         @ [Malloc ((size_needed * sizeof_rmt_data_t e) mod 2 ^ 32)] \<and>
     hspi (resize e s size_needed) = hspi s"
  using assms by (simp add: resize_eq malloc_def request_def released_def)

theorem allocation_failure_loses_buffer_counterexample:
  "showPixels no_memory after_one_pixel [] =
     Inl (NullStore,
       after_one_pixel\<lparr>led_data := None, mSize := 10,
         heap_calls := [Malloc 136, Free, Malloc 40]\<rparr>) \<and>
   \<not> can_allocate no_memory 40 \<and>
   led_data after_one_pixel = Some (one_pixel_symbols @ replicate 10 0 @ replicate 102 0xAA) \<and>
   mSize after_one_pixel = 34"
proof -
  have n: "length ([]::PixelController) * 3 * 8 + RESET_LENGTH = 10"
    by (simp add: RESET_LENGTH_def)
  have r: "request no_memory 10 = 40"
    by (simp add: request_def no_memory_def)
  have h: "heap_calls after_one_pixel @ released after_one_pixel = [Malloc 136, Free]"
    by (simp add: released_def after_one_pixel_def)
  have m: "mSize after_one_pixel = 34"
    by (simp add: after_one_pixel_def)
  have c: "\<not> can_allocate no_memory 40"
    by (simp add: no_memory_def)
  have "showPixels no_memory after_one_pixel [] =
     Inl (NullStore, after_one_pixel\<lparr>led_data := None,
       mSize := length ([]::PixelController) * 3 * 8 + RESET_LENGTH,
       heap_calls := heap_calls after_one_pixel @ released after_one_pixel
         @ [Malloc (request no_memory (length ([]::PixelController) * 3 * 8 + RESET_LENGTH))]\<rparr>)"
    by (rule showPixels_allocation_fails) (simp_all only: n r m c, simp_all add: INT_MAX_def)
  then have "showPixels no_memory after_one_pixel [] =
     Inl (NullStore,
       after_one_pixel\<lparr>led_data := None, mSize := 10,
         heap_calls := [Malloc 136, Free, Malloc 40]\<rparr>)"
    unfolding n r using h by simp
  moreover have "led_data after_one_pixel =
      Some (one_pixel_symbols @ replicate 10 0 @ replicate 102 0xAA)"
    by (simp add: after_one_pixel_def)
  ultimately show ?thesis using c m by simp
qed

theorem allocation_failure_loses_buffer_witness:
  "\<not> can_allocate no_memory ((10 * sizeof_rmt_data_t no_memory) mod 2 ^ 32) \<and>
   led_data after_one_pixel = Some (one_pixel_symbols @ replicate 10 0 @ replicate 102 0xAA) \<and>
   led_data (resize no_memory after_one_pixel 10) = None \<and>
   mSize (resize no_memory after_one_pixel 10) = 10 \<and>
   heap_calls (resize no_memory after_one_pixel 10) = [Malloc 136, Free, Malloc 40] \<and>
   hspi (resize no_memory after_one_pixel 10) = hspi after_one_pixel"
proof -
  have a: "\<not> can_allocate no_memory ((10 * sizeof_rmt_data_t no_memory) mod 2 ^ 32)"
    by (simp add: no_memory_def)
  have b: "led_data after_one_pixel =
      Some (one_pixel_symbols @ replicate 10 0 @ replicate 102 0xAA)"
    and c: "heap_calls after_one_pixel = [Malloc 136]"
    by (simp_all add: after_one_pixel_def)
  have d: "(10 * sizeof_rmt_data_t no_memory) mod 2 ^ 32 = 40"
    by (simp add: no_memory_def)
  from allocation_failure_loses_buffer [OF a, of after_one_pixel] a b c d
  show ?thesis by simp
qed

text \<open>
  C10: the encoded region holds symbol bytes only. Every value the encoder stores is one of
  the constants \<open>0xf8\<close> and \<open>0x80\<close>; both are nonzero and have their most significant
  bit set; so after a completed drive cycle no byte of the encoded region is zero.
\<close>

theorem encoded_region_symbols_only:
  assumes "showPixels e s px = Inr s'" and "i < 24 * length px"
  shows "(buffer s' ! i = 0xf8 \<or> buffer s' ! i = 0x80) \<and>
     buffer s' ! i \<noteq> 0 \<and> bit (buffer s' ! i) 7 \<and>
     (symbol b m = 0xf8 \<or> symbol b m = 0x80) \<and>
     mOne = 0xf8 \<and> mZero = 0x80 \<and> mOne \<noteq> 0 \<and> mZero \<noteq> 0 \<and> bit mOne 7 \<and> bit mZero 7"
proof -
  from showPixels_buffer [OF assms(1)] assms(2)
  have "buffer s' ! i = encoded px ! i"
    by (metis nth_take)
  moreover have "encoded px ! i \<in> set (encoded px)"
    using assms(2) by (simp add: length_encoded)
  ultimately have "buffer s' ! i = mOne \<or> buffer s' ! i = mZero"
    using set_encoded [of px] by auto
  then show ?thesis
    using symbol_cases [of b m] by (auto simp: mOne_def mZero_def)
qed

theorem encoded_region_symbols_only_witness:
  "showPixels env4 (init initial) one_pixel = Inr after_one_pixel \<and>
   (17::nat) < 24 * length one_pixel \<and>
   buffer after_one_pixel ! 17 = 0x80 \<and> buffer after_one_pixel ! 17 \<noteq> 0 \<and>
   bit (buffer after_one_pixel ! 17) 7 \<and> symbol 0x81 0x40 = 0x80"
proof -
  have i: "(17::nat) < 24 * length one_pixel"
    by (simp add: one_pixel_def)
  have v: "buffer after_one_pixel ! 17 = 0x80"
    by (simp add: buffer_def after_one_pixel_def one_pixel_symbols_def)
  have y: "symbol 0x81 0x40 = 0x80"
    by (simp add: symbol_def mZero_def)
  from encoded_region_symbols_only [OF showPixels_one_pixel i, of "0x81" "0x40"]
    showPixels_one_pixel i v y
  show ?thesis by simp
qed

end
